theory Spec2Isabelle
  imports Main "HOL-Library.Multiset" "HOL-Library.Mapping"
begin

section \<open>Python built-ins used by the page-selection code\<close>

text \<open>
  The embedding follows \<^verbatim>\<open>skills/pdf-extraction/scripts/extract_text.py\<close>.
  Python strings are modelled as \<^typ>\<open>string\<close>, one \<^typ>\<open>char\<close> per character, for
  the characters up to U+00FF; text beyond that range is outside the model.
  Python integers are \<^typ>\<open>int\<close>. The built-ins \<^verbatim>\<open>str.lower\<close>, \<^verbatim>\<open>str.split\<close>,
  \<^verbatim>\<open>str.join\<close>, \<^verbatim>\<open>int\<close>, \<^verbatim>\<open>range\<close> and \<^verbatim>\<open>sorted(set(...))\<close> are written out
  below with the behaviour of CPython on such strings. Exceptions are values of
  \<open>py_error\<close>; a function that may raise returns \<open>py_error + 'a\<close>.
  Two limits of the interpreter are part of the model, with the values of a
  default 64-bit CPython: \<^verbatim>\<open>sys.maxsize\<close>, beyond which the length of a range
  cannot be taken, and the number of digits \<^verbatim>\<open>int\<close> converts. Running out of
  memory is outside the model.
\<close>

text \<open>
  Exceptions raised inside pdfplumber: \<^verbatim>\<open>FileNotFoundError\<close>, which
  \<^verbatim>\<open>extract_text\<close> catches apart, or any other exception, with its message.
\<close>

datatype collaborator_exception = FileNotFoundError | OtherException string

datatype py_error =
    InvalidLiteral string
      \<comment> \<open>\<^verbatim>\<open>ValueError("invalid literal for int() with base 10: " + repr(s))\<close>, keeping \<open>s\<close>\<close>
  | DigitLimit
      \<comment> \<open>\<^verbatim>\<open>ValueError("Exceeds the limit (4300 digits) for integer string conversion ...")\<close>\<close>
  | UnpackError
      \<comment> \<open>\<^verbatim>\<open>ValueError\<close> of \<^verbatim>\<open>start, end = part.split('-')\<close> when there are not two parts\<close>
  | OverflowError
      \<comment> \<open>\<^verbatim>\<open>OverflowError("Python int too large to convert to C ssize_t")\<close>\<close>
  | IndexError
      \<comment> \<open>\<^verbatim>\<open>IndexError("list index out of range")\<close>\<close>
  | Collaborator collaborator_exception
      \<comment> \<open>an exception raised inside pdfplumber\<close>

definition upper_chars :: string where
  "upper_chars =
     ''ABCDEFGHIJKLMNOPQRSTUVWXYZ'' @
        [CHR 0xC0, CHR 0xC1, CHR 0xC2, CHR 0xC3, CHR 0xC4, CHR 0xC5, CHR 0xC6, CHR 0xC7,
         CHR 0xC8, CHR 0xC9, CHR 0xCA, CHR 0xCB, CHR 0xCC, CHR 0xCD, CHR 0xCE, CHR 0xCF,
         CHR 0xD0, CHR 0xD1, CHR 0xD2, CHR 0xD3, CHR 0xD4, CHR 0xD5, CHR 0xD6, CHR 0xD8,
         CHR 0xD9, CHR 0xDA, CHR 0xDB, CHR 0xDC, CHR 0xDD, CHR 0xDE]"

definition lower_chars :: string where
  "lower_chars =
     ''abcdefghijklmnopqrstuvwxyz'' @
        [CHR 0xE0, CHR 0xE1, CHR 0xE2, CHR 0xE3, CHR 0xE4, CHR 0xE5, CHR 0xE6, CHR 0xE7,
         CHR 0xE8, CHR 0xE9, CHR 0xEA, CHR 0xEB, CHR 0xEC, CHR 0xED, CHR 0xEE, CHR 0xEF,
         CHR 0xF0, CHR 0xF1, CHR 0xF2, CHR 0xF3, CHR 0xF4, CHR 0xF5, CHR 0xF6, CHR 0xF8,
         CHR 0xF9, CHR 0xFA, CHR 0xFB, CHR 0xFC, CHR 0xFD, CHR 0xFE]"

definition py_lower_char :: "char \<Rightarrow> char" where
  "py_lower_char c =
     (case map_of (zip upper_chars lower_chars) c of
        None \<Rightarrow> c
      | Some l \<Rightarrow> l)"

definition py_lower :: "string \<Rightarrow> string" where
  "py_lower s = map py_lower_char s"

text \<open>\<^verbatim>\<open>s.split(c)\<close> for a one-character separator: never empty, keeps empty pieces.\<close>

fun py_split :: "char \<Rightarrow> string \<Rightarrow> string list" where
  "py_split c [] = [[]]"
| "py_split c (x # xs) =
     (if x = c then [] # py_split c xs
      else (case py_split c xs of
              [] \<Rightarrow> [[x]]
            | p # ps \<Rightarrow> (x # p) # ps))"

text \<open>\<^verbatim>\<open>sep.join(xs)\<close>.\<close>

fun py_join :: "string \<Rightarrow> string list \<Rightarrow> string" where
  "py_join sep [] = []"
| "py_join sep [x] = x"
| "py_join sep (x # y # ys) = x @ sep @ py_join sep (y # ys)"

text \<open>
  \<^verbatim>\<open>int(s)\<close> in base 10: whitespace around the literal is ignored, one sign is
  allowed, then digits, where single underscores may stand between two digits.
  Anything else raises \<^verbatim>\<open>ValueError\<close> with the literal as given. The whitespace
  \<^verbatim>\<open>int\<close> ignores is tab, line feed, vertical tab, form feed, carriage return,
  space, and U+0085 and U+00A0; the separators U+001C to U+001F, which
  \<^verbatim>\<open>str.strip\<close> removes, are not among them.
\<close>

definition int_space :: "char \<Rightarrow> bool" where
  "int_space c \<longleftrightarrow>
     c \<in> set [CHR 0x09, CHR 0x0A, CHR 0x0B, CHR 0x0C, CHR 0x0D, CHR 0x20, CHR 0x85, CHR 0xA0]"

definition int_strip :: "string \<Rightarrow> string" where
  "int_strip s = rev (dropWhile int_space (rev (dropWhile int_space s)))"

definition is_digit :: "char \<Rightarrow> bool" where
  "is_digit c \<longleftrightarrow> c \<in> set ''0123456789''"

definition digit_val :: "char \<Rightarrow> nat" where
  "digit_val c = of_char c - 48"

fun digits_from :: "nat \<Rightarrow> string \<Rightarrow> nat option" where
  "digits_from acc [] = Some acc"
| "digits_from acc (c # cs) =
     (if c = CHR ''_'' then
        (case cs of
           [] \<Rightarrow> None
         | d # ds \<Rightarrow> if is_digit d then digits_from (10 * acc + digit_val d) ds else None)
      else if is_digit c then digits_from (10 * acc + digit_val c) cs
      else None)"

definition nat_literal :: "string \<Rightarrow> nat option" where
  "nat_literal s =
     (case s of
        [] \<Rightarrow> None
      | c # cs \<Rightarrow> if is_digit c then digits_from (digit_val c) cs else None)"

text \<open>
  The scan of \<^verbatim>\<open>int\<close> after the leading whitespace and the sign: it takes the
  longest run of digits and underscores, rejects a run that is empty or has an
  underscore at either end or two in a row, then refuses more than
  \<^verbatim>\<open>sys.get_int_max_str_digits()\<close> digits, and only then requires that nothing
  but whitespace follows.
\<close>

definition max_str_digits :: nat where
  "max_str_digits = 4300"

definition literal_char :: "char \<Rightarrow> bool" where
  "literal_char c \<longleftrightarrow> is_digit c \<or> c = CHR ''_''"

definition negative :: "string \<Rightarrow> bool" where
  "negative t = (case t of [] \<Rightarrow> False | c # cs \<Rightarrow> c = CHR ''-'')"

definition unsigned :: "string \<Rightarrow> string" where
  "unsigned t =
     (case t of
        [] \<Rightarrow> []
      | c # cs \<Rightarrow> if c = CHR ''-'' \<or> c = CHR ''+'' then cs else c # cs)"

definition py_int :: "string \<Rightarrow> py_error + int" where
  "py_int s =
     (let body = unsigned (int_strip s);
          run = takeWhile literal_char body
      in case nat_literal run of
           None \<Rightarrow> Inl (InvalidLiteral s)
         | Some v \<Rightarrow>
             if max_str_digits < length (filter is_digit run) then Inl DigitLimit
             else if dropWhile literal_char body \<noteq> [] then Inl (InvalidLiteral s)
             else Inr (if negative (int_strip s) then - int v else int v))"

text \<open>The value of \<^verbatim>\<open>int(s)\<close>, when it returns one.\<close>

definition int_literal :: "string \<Rightarrow> int option" where
  "int_literal s = (case py_int s of Inl e \<Rightarrow> None | Inr v \<Rightarrow> Some v)"

text \<open>
  \<^verbatim>\<open>sys.maxsize\<close>. \<^verbatim>\<open>list.extend\<close> asks the range for its length, which raises
  \<^verbatim>\<open>OverflowError\<close> when the length is larger.
\<close>

definition sys_maxsize :: int where
  "sys_maxsize = 9223372036854775807"

text \<open>\<^verbatim>\<open>range(a, b)\<close> as a list; empty when \<open>b \<le> a\<close>.\<close>

definition py_range :: "int \<Rightarrow> int \<Rightarrow> int list" where
  "py_range a b = [a..b - 1]"

text \<open>\<^verbatim>\<open>sorted(set(xs))\<close> on integers.\<close>

definition sorted_set :: "int list \<Rightarrow> int list" where
  "sorted_set xs = sort (remdups xs)"

section \<open>The selector resolver\<close>

text \<open>
  One pass of the loop body of \<^verbatim>\<open>parse_page_range\<close>: the page numbers one
  comma-separated part adds to \<^verbatim>\<open>pages\<close>, or the exception it raises.
\<close>

definition parse_part :: "string \<Rightarrow> py_error + int list" where
  "parse_part part =
     (if CHR ''-'' \<in> set part then
        (case py_split (CHR ''-'') part of
           [start, end] \<Rightarrow>
             (case py_int start of
                Inl e \<Rightarrow> Inl e
              | Inr s \<Rightarrow>
                  (case py_int end of
                     Inl e \<Rightarrow> Inl e
                   | Inr e \<Rightarrow>
                       if sys_maxsize < e - (s - 1) then Inl OverflowError
                       else Inr (py_range (s - 1) e)))
         | _ \<Rightarrow> Inl UnpackError)
      else
        (case py_int part of
           Inl e \<Rightarrow> Inl e
         | Inr n \<Rightarrow> Inr [n - 1]))"

text \<open>The loop over the parts, with the accumulator \<^verbatim>\<open>pages\<close>.\<close>

fun parse_parts :: "int list \<Rightarrow> string list \<Rightarrow> py_error + int list" where
  "parse_parts pages [] = Inr pages"
| "parse_parts pages (part # parts) =
     (case parse_part part of
        Inl e \<Rightarrow> Inl e
      | Inr ns \<Rightarrow> parse_parts (pages @ ns) parts)"

text \<open>
  In the program \<^verbatim>\<open>total_pages\<close> is \<^verbatim>\<open>len(pdf.pages)\<close>, the length of a list, so
  \<^verbatim>\<open>list(range(total_pages))\<close> stays within the limits.
\<close>

definition parse_page_range :: "string \<Rightarrow> int \<Rightarrow> py_error + int list" where
  "parse_page_range range_str total_pages =
     (if py_lower range_str = ''all'' then Inr (py_range 0 total_pages)
      else
        (case parse_parts [] (py_split (CHR '','') range_str) of
           Inl e \<Rightarrow> Inl e
         | Inr pages \<Rightarrow> Inr (sorted_set pages)))"

section \<open>The extraction aggregator\<close>

text \<open>
  What the code sees of pdfplumber. A page is the outcome of its
  \<^verbatim>\<open>extract_text()\<close>: an exception, or the value returned, \<^verbatim>\<open>None\<close> or a
  string. \<^verbatim>\<open>pdf.metadata\<close> is a
  dictionary from strings to values of some type \<open>'v\<close>; Python's \<^verbatim>\<open>str\<close> on these
  values is a parameter \<open>str\<close> of the model.
\<close>

datatype pdf_page = Raises collaborator_exception | Returns "string option"

record 'v pdf =
  pdf_pages :: "pdf_page list"
  pdf_metadata :: "(string, 'v) mapping"

text \<open>The outcome of \<^verbatim>\<open>pdfplumber.open(file_path)\<close>.\<close>

datatype 'v open_outcome =
    OpenRaises collaborator_exception
  | Opened "'v pdf"

text \<open>The argument \<^verbatim>\<open>pages\<close>: a string, or anything else.\<close>

datatype pages_arg = StrArg string | OtherArg

record page_record =
  page :: int
  page_text :: string
  char_count :: nat

record extraction_result =
  result_file :: string  \<comment> \<open>the key \<^verbatim>\<open>'file'\<close>\<close>
  total_pages :: nat
  extracted_pages :: nat
  total_chars :: nat
  pages :: "page_record list"
  full_text :: string
  metadata :: "(string, string) mapping option"
    \<comment> \<open>\<open>None\<close>: the dictionary has no key \<^verbatim>\<open>'metadata'\<close>\<close>

text \<open>
  The dictionary returned: \<^verbatim>\<open>{'success': True, ...}\<close>, or
  \<^verbatim>\<open>{'success': False, 'error': ...}\<close> whose message is either
  \<^verbatim>\<open>'File not found: ' + file_path\<close> or \<^verbatim>\<open>str(e)\<close> of the exception caught.
\<close>

datatype error_text = FileNotFoundText string | StrOf py_error

datatype extract_outcome = Success extraction_result | Failure error_text

text \<open>
  \<^verbatim>\<open>xs[i]\<close> on a list of length \<open>n\<close>: the indices \<open>-n, ..., -1\<close> count from the
  end, the indices \<open>0, ..., n - 1\<close> from the start, every other index raises.
\<close>

definition py_getitem :: "'a list \<Rightarrow> int \<Rightarrow> py_error + 'a" where
  "py_getitem xs i =
     (if - int (length xs) \<le> i \<and> i < 0 then Inr (xs ! nat (i + int (length xs)))
      else if 0 \<le> i \<and> i < int (length xs) then Inr (xs ! nat i)
      else Inl IndexError)"

definition make_record :: "int \<Rightarrow> string option \<Rightarrow> page_record" where
  "make_record page_num t =
     \<lparr>page = page_num + 1,
      page_text = (case t of None \<Rightarrow> [] | Some s \<Rightarrow> s),
      char_count = (case t of None \<Rightarrow> 0 | Some s \<Rightarrow> length s)\<rparr>"

text \<open>
  The loop \<^verbatim>\<open>for page_num in page_numbers\<close>. The first component lists the indices
  at which \<^verbatim>\<open>pdf.pages[page_num]\<close> was evaluated, in order; the second is
  \<^verbatim>\<open>extracted_pages\<close>, or the exception that ended the loop.
\<close>

fun extract_pages ::
  "pdf_page list \<Rightarrow> int list \<Rightarrow> int list \<times> (py_error + page_record list)" where
  "extract_pages pgs [] = ([], Inr [])"
| "extract_pages pgs (page_num # rest) =
     (if 0 \<le> page_num \<and> page_num < int (length pgs) then
        (case py_getitem pgs page_num of
           Inl e \<Rightarrow> ([page_num], Inl e)
         | Inr (Raises x) \<Rightarrow> ([page_num], Inl (Collaborator x))
         | Inr (Returns t) \<Rightarrow>
             (case extract_pages pgs rest of
                (reads, Inl e) \<Rightarrow> (page_num # reads, Inl e)
              | (reads, Inr recs) \<Rightarrow> (page_num # reads, Inr (make_record page_num t # recs))))
      else extract_pages pgs rest)"

definition page_numbers_of :: "pages_arg \<Rightarrow> nat \<Rightarrow> py_error + int list" where
  "page_numbers_of pgs n =
     (case pgs of
        StrArg s \<Rightarrow> parse_page_range s (int n)
      | OtherArg \<Rightarrow> Inr (py_range 0 (int n)))"

definition build_result ::
  "('v \<Rightarrow> string) \<Rightarrow> string \<Rightarrow> 'v pdf \<Rightarrow> bool \<Rightarrow> page_record list \<Rightarrow> extraction_result" where
  "build_result str file_path doc include_metadata recs =
     (let text_all = py_join [CHR 0x0A] (map page_text recs) in
      \<lparr>result_file = file_path,
       total_pages = length (pdf_pages doc),
       extracted_pages = length recs,
       total_chars = length text_all,
       pages = recs,
       full_text = text_all,
       metadata =
         (if include_metadata \<and> \<not> Mapping.is_empty (pdf_metadata doc)
          then Some (Mapping.map_values (\<lambda>k v. str v) (pdf_metadata doc))
          else None)\<rparr>)"

text \<open>
  The two handlers: \<^verbatim>\<open>except FileNotFoundError\<close> answers with the file path,
  \<^verbatim>\<open>except Exception\<close> with \<^verbatim>\<open>str(e)\<close>, wherever in the \<^verbatim>\<open>try\<close> block the
  exception was raised.
\<close>

definition failure_of :: "string \<Rightarrow> py_error \<Rightarrow> extract_outcome" where
  "failure_of file_path e =
     (case e of
        Collaborator FileNotFoundError \<Rightarrow> Failure (FileNotFoundText file_path)
      | _ \<Rightarrow> Failure (StrOf e))"

text \<open>
  \<^verbatim>\<open>extract_text\<close>, together with the indices it used on \<^verbatim>\<open>pdf.pages\<close>.
\<close>

definition extract_text_traced ::
  "('v \<Rightarrow> string) \<Rightarrow> string \<Rightarrow> 'v open_outcome \<Rightarrow> pages_arg \<Rightarrow> bool
     \<Rightarrow> int list \<times> extract_outcome" where
  "extract_text_traced str file_path opened pgs include_metadata =
     (case opened of
        OpenRaises x \<Rightarrow> ([], failure_of file_path (Collaborator x))
      | Opened doc \<Rightarrow>
          (case page_numbers_of pgs (length (pdf_pages doc)) of
             Inl e \<Rightarrow> ([], failure_of file_path e)
           | Inr page_numbers \<Rightarrow>
               (case extract_pages (pdf_pages doc) page_numbers of
                  (reads, Inl e) \<Rightarrow> (reads, failure_of file_path e)
                | (reads, Inr recs) \<Rightarrow>
                    (reads, Success (build_result str file_path doc include_metadata recs)))))"

definition extract_text ::
  "('v \<Rightarrow> string) \<Rightarrow> string \<Rightarrow> 'v open_outcome \<Rightarrow> pages_arg \<Rightarrow> bool \<Rightarrow> extract_outcome" where
  "extract_text str file_path opened pgs include_metadata =
     snd (extract_text_traced str file_path opened pgs include_metadata)"

section \<open>Selectors as the specification describes them\<close>

text \<open>
  The grammar of the specification, to compare with what the code accepts:
  \<^verbatim>\<open>selector := "all" | token ("," token)*\<close>, \<^verbatim>\<open>token := INT | INT "-" INT\<close>, where
  \<^verbatim>\<open>INT\<close> is a base-10 literal without sign.
\<close>

definition is_INT :: "string \<Rightarrow> bool" where
  "is_INT s \<longleftrightarrow> s \<noteq> [] \<and> list_all is_digit s"

definition is_token :: "string \<Rightarrow> bool" where
  "is_token t =
     (case py_split (CHR ''-'') t of
        [a] \<Rightarrow> is_INT a
      | [a, b] \<Rightarrow> is_INT a \<and> is_INT b
      | _ \<Rightarrow> False)"

definition grammar_selector :: "string \<Rightarrow> bool" where
  "grammar_selector s \<longleftrightarrow> s = ''all'' \<or> list_all is_token (py_split (CHR '','') s)"

text \<open>
  What a token of the grammar denotes, before any bound is applied: the value of
  a decimal literal, and the zero-indexed pages of a page number \<open>a\<close> (the page
  \<open>a - 1\<close>) and of a range \<open>a-b\<close> (the pages \<open>a - 1, ..., b - 1\<close>).
\<close>

definition dec_value :: "string \<Rightarrow> nat" where
  "dec_value s = foldl (\<lambda>a c. 10 * a + digit_val c) 0 s"

definition token_pages :: "string \<Rightarrow> int list" where
  "token_pages t =
     (case py_split (CHR ''-'') t of
        [a] \<Rightarrow> [int (dec_value a) - 1]
      | [a, b] \<Rightarrow> [int (dec_value a) - 1..int (dec_value b) - 1]
      | _ \<Rightarrow> [])"

text \<open>
  The tokens the interpreter can take: no literal longer than the digit limit,
  no range longer than \<^verbatim>\<open>sys.maxsize\<close>.
\<close>

definition token_within_limits :: "string \<Rightarrow> bool" where
  "token_within_limits t =
     (case py_split (CHR ''-'') t of
        [a] \<Rightarrow> length a \<le> max_str_digits
      | [a, b] \<Rightarrow>
          length a \<le> max_str_digits \<and> length b \<le> max_str_digits \<and>
          int (dec_value b) - (int (dec_value a) - 1) \<le> sys_maxsize
      | _ \<Rightarrow> True)"

definition selector_within_limits :: "string \<Rightarrow> bool" where
  "selector_within_limits s \<longleftrightarrow> list_all token_within_limits (py_split (CHR '','') s)"

text \<open>
  The three kinds of part the resolver reads, in terms of what \<^verbatim>\<open>int\<close> accepts:
  the keyword up to letter case, an integer without a dash, and two integers
  around one dash.
\<close>

definition all_keyword :: "string \<Rightarrow> bool" where
  "all_keyword t \<longleftrightarrow> py_lower t = ''all''"

definition bare_integer :: "string \<Rightarrow> bool" where
  "bare_integer t \<longleftrightarrow> CHR ''-'' \<notin> set t \<and> int_literal t \<noteq> None"

definition dash_range :: "string \<Rightarrow> bool" where
  "dash_range t =
     (case py_split (CHR ''-'') t of
        [a, b] \<Rightarrow> int_literal a \<noteq> None \<and> int_literal b \<noteq> None
      | _ \<Rightarrow> False)"


section \<open>A document used in the examples\<close>

definition example_pdf :: "string pdf" where
  "example_pdf =
     \<lparr>pdf_pages = [Returns (Some ''ab''), Returns None, Returns (Some ''c'')],
      pdf_metadata = Mapping.update ''Title'' ''Report'' Mapping.empty\<rparr>"

definition example_result :: extraction_result where
  "example_result =
     \<lparr>result_file = ''f.pdf'', total_pages = 3, extracted_pages = 3, total_chars = 5,
      pages = [\<lparr>page = 1, page_text = ''ab'', char_count = 2\<rparr>,
               \<lparr>page = 2, page_text = [], char_count = 0\<rparr>,
               \<lparr>page = 3, page_text = ''c'', char_count = 1\<rparr>],
      full_text = ''ab'' @ [CHR 0x0A, CHR 0x0A] @ ''c'',
      metadata = None\<rparr>"

section \<open>Properties of the built-ins\<close>

lemmas lower_defs = py_lower_def py_lower_char_def upper_chars_def lower_chars_def

lemma lower_is_a: "py_lower_char c = CHR ''a'' \<Longrightarrow> c = CHR ''a'' \<or> c = CHR ''A''"
  by (simp add: py_lower_char_def upper_chars_def lower_chars_def split: if_splits option.splits)

lemma lower_is_l: "py_lower_char c = CHR ''l'' \<Longrightarrow> c = CHR ''l'' \<or> c = CHR ''L''"
  by (simp add: py_lower_char_def upper_chars_def lower_chars_def split: if_splits option.splits)

lemma all_keyword_spellings:
  assumes "py_lower s = ''all''"
  shows "s \<in> {''all'', ''alL'', ''aLl'', ''aLL'', ''All'', ''AlL'', ''ALl'', ''ALL''}"
proof -
  from assms obtain a b c where s: "s = [a, b, c]"
    and "py_lower_char a = CHR ''a''" "py_lower_char b = CHR ''l''" "py_lower_char c = CHR ''l''"
    by (auto simp: py_lower_def map_eq_Cons_conv)
  then have "(a = CHR ''a'' \<or> a = CHR ''A'') \<and> (b = CHR ''l'' \<or> b = CHR ''L'') \<and>
      (c = CHR ''l'' \<or> c = CHR ''L'')"
    by (simp add: lower_is_a lower_is_l)
  with s show ?thesis by auto
qed

lemma py_lower_comma: "py_lower s = ''all'' \<Longrightarrow> CHR '','' \<notin> set s"
proof
  assume a: "py_lower s = ''all''" and "CHR '','' \<in> set s"
  then have "py_lower_char (CHR '','') \<in> set (py_lower s)"
    unfolding py_lower_def by (metis image_eqI set_map)
  with a show False by (simp add: py_lower_char_def upper_chars_def lower_chars_def)
qed

lemma py_split_not_Nil: "py_split c s \<noteq> []"
  by (induction s) (auto split: list.splits)

lemma py_split_no_sep: "c \<notin> set s \<Longrightarrow> py_split c s = [s]"
  by (induction s) auto

lemma py_split_sep_length: "c \<in> set s \<Longrightarrow> 2 \<le> length (py_split c s)"
proof (induction s)
  case Nil
  then show ?case by simp
next
  case (Cons x xs)
  show ?case
  proof (cases "x = c")
    case True
    then show ?thesis using py_split_not_Nil [of c xs] by (cases "py_split c xs") auto
  next
    case False
    with Cons show ?thesis by (auto split: list.splits)
  qed
qed

lemma py_split_single: "py_split c s = [a] \<Longrightarrow> c \<notin> set s \<and> a = s"
proof -
  assume one: "py_split c s = [a]"
  have "c \<notin> set s"
  proof
    assume "c \<in> set s"
    then have "2 \<le> length (py_split c s)" by (rule py_split_sep_length)
    with one show False by simp
  qed
  with one show ?thesis by (simp add: py_split_no_sep)
qed

lemma py_split_two: "py_split c s = [a, b] \<Longrightarrow> c \<in> set s"
  by (rule ccontr) (simp add: py_split_no_sep)




lemma py_join_split: "py_join [c] (py_split c s) = s"
proof (induction s)
  case Nil
  then show ?case by simp
next
  case (Cons x xs)
  show ?case
  proof (cases "py_split c xs")
    case Nil
    then show ?thesis using py_split_not_Nil by blast
  next
    case (Cons p ps)
    with Cons.IH show ?thesis by (cases ps) auto
  qed
qed


lemma split_single_same:
  assumes "py_split c s' = [s]" shows "s' = s"
  using py_join_split [of c s'] assms by simp

lemma all_single_part: "py_lower s = ''all'' \<Longrightarrow> py_split (CHR '','') s = [s]"
  by (simp add: py_lower_comma py_split_no_sep)

lemma length_py_join:
  "length (py_join [c] xs) = sum_list (map length xs) + (length xs - 1)"
  by (induction "[c]" xs rule: py_join.induct) simp_all

lemma py_range_ascending: "sorted_wrt (<) (py_range a b)"
  by (simp add: py_range_def)

lemma sorted_set_set: "set (sorted_set xs) = set xs"
  by (simp add: sorted_set_def)

lemma sorted_set_ascending: "sorted_wrt (<) (sorted_set xs)"
  by (simp add: sorted_set_def strict_sorted_iff)

lemma sorted_set_cong: "set xs = set ys \<Longrightarrow> sorted_set xs = sorted_set ys"
proof -
  assume "set xs = set ys"
  have "\<And>zs. sorted_set zs = sorted_list_of_set (set zs)"
    by (simp add: sorted_set_def sorted_list_of_set_sort_remdups)
  with \<open>set xs = set ys\<close> show ?thesis by simp
qed

lemma sorted_set_id: "sorted_wrt (<) xs \<Longrightarrow> sorted_set xs = xs"
  by (simp add: sorted_set_def strict_sorted_iff sorted_sort_id)

lemma strict_ascending_unique:
  "sorted_wrt (<) (xs::int list) \<Longrightarrow> sorted_wrt (<) ys \<Longrightarrow> set xs = set ys \<Longrightarrow> xs = ys"
  by (simp add: strict_sorted_iff sorted_distinct_set_unique)

lemma upto_as_upt: "0 \<le> n \<Longrightarrow> py_range 0 n = map int [0..<nat n]"
  by (auto simp: py_range_def intro!: nth_equalityI)







lemma int_strip_unchanged:
  assumes "s \<noteq> []" "\<not> int_space (hd s)" "\<not> int_space (last s)"
  shows "int_strip s = s"
proof -
  from assms have "dropWhile int_space s = s"
    by (simp add: dropWhile_eq_self_iff)
  moreover from assms have "dropWhile int_space (rev s) = rev s"
    by (simp add: dropWhile_eq_self_iff hd_rev)
  ultimately show ?thesis by (simp add: int_strip_def)
qed





lemma py_int_Inl:
  "py_int p = Inl e \<Longrightarrow> (e = InvalidLiteral p \<or> e = DigitLimit) \<and> int_literal p = None"
  by (auto simp: int_literal_def py_int_def Let_def split: option.splits if_splits)

lemma py_int_Inr: "py_int p = Inr v \<longleftrightarrow> int_literal p = Some v"
  by (simp add: int_literal_def split: sum.splits)

lemma digit_not_special:
  "is_digit c \<Longrightarrow> \<not> int_space c \<and> c \<noteq> CHR ''_'' \<and> c \<noteq> CHR ''-'' \<and> c \<noteq> CHR ''+''"
  by (auto simp: is_digit_def int_space_def)

lemma digits_from_digits:
  "list_all is_digit cs \<Longrightarrow>
     digits_from acc cs = Some (foldl (\<lambda>a c. 10 * a + digit_val c) acc cs)"
  by (induction cs arbitrary: acc) (auto simp: digit_not_special)

lemma nat_literal_INT: "is_INT s \<Longrightarrow> nat_literal s = Some (dec_value s)"
  by (cases s) (simp_all add: is_INT_def nat_literal_def dec_value_def digits_from_digits)

lemma py_int_INT:
  assumes "is_INT s"
  shows "py_int s = (if length s \<le> max_str_digits then Inr (int (dec_value s)) else Inl DigitLimit)"
proof -
  from assms obtain c cs where s: "s = c # cs" and c: "is_digit c"
    by (cases s) (auto simp: is_INT_def)
  from assms have digits: "\<forall>x\<in>set s. is_digit x"
    by (simp add: is_INT_def list_all_iff)
  with s have "is_digit (last s)"
    by (metis last_in_set list.distinct(1))
  with s c have strip: "int_strip s = s"
    by (intro int_strip_unchanged) (simp_all add: digit_not_special)
  from s c have body: "unsigned s = s" and sign: "\<not> negative s"
    by (simp_all add: unsigned_def negative_def digit_not_special)
  from digits have run: "takeWhile literal_char s = s" and rest: "dropWhile literal_char s = []"
    by (simp_all add: literal_char_def)
  from digits have count: "filter is_digit s = s"
    by simp
  show ?thesis
    by (simp add: py_int_def strip body sign run rest count nat_literal_INT [OF assms])
qed

lemma py_getitem_in_bounds:
  "0 \<le> i \<Longrightarrow> i < int (length xs) \<Longrightarrow> py_getitem xs i = Inr (xs ! nat i)"
  by (simp add: py_getitem_def)

section \<open>Properties of the resolver\<close>

lemmas resolver_defs =
  parse_page_range_def parse_part_def py_int_def int_literal_def nat_literal_def
  unsigned_def negative_def literal_char_def max_str_digits_def sys_maxsize_def Let_def
  lower_defs int_strip_def int_space_def is_digit_def digit_val_def
  py_range_def sorted_set_def



lemma parse_part_Inl:
  assumes "parse_part t = Inl e"
  shows "e = UnpackError \<or> e = DigitLimit \<or> e = OverflowError \<or>
    (\<exists>p\<in>set (py_split (CHR ''-'') t). e = InvalidLiteral p \<and> int_literal p = None)"
proof (cases "CHR ''-'' \<in> set t")
  case False
  with assms have "py_int t = Inl e"
    by (auto simp: parse_part_def split: sum.splits)
  with False show ?thesis
    by (auto simp: py_split_no_sep dest: py_int_Inl)
next
  case True
  show ?thesis
  proof (cases "\<exists>a b. py_split (CHR ''-'') t = [a, b]")
    case False
    with True assms have "e = UnpackError"
      by (auto simp: parse_part_def split: list.splits)
    then show ?thesis ..
  next
    case True
    then obtain a b where ab: "py_split (CHR ''-'') t = [a, b]" by blast
    with \<open>CHR ''-'' \<in> set t\<close> assms
    have "py_int a = Inl e \<or> py_int b = Inl e \<or> e = OverflowError"
      by (auto simp: parse_part_def split: sum.splits if_splits)
    with ab show ?thesis
      by (auto dest: py_int_Inl)
  qed
qed

lemma parse_part_no_IndexError: "parse_part t \<noteq> Inl IndexError"
proof
  assume "parse_part t = Inl IndexError"
  from parse_part_Inl [OF this] show False by simp
qed

lemma parse_part_rejects:
  assumes "\<not> bare_integer t" "\<not> dash_range t"
  shows "\<exists>e. parse_part t = Inl e"
proof (cases "CHR ''-'' \<in> set t")
  case False
  with assms(1) show ?thesis
    by (auto simp: bare_integer_def parse_part_def int_literal_def split: sum.splits)
next
  case True
  with assms(2) show ?thesis
    by (auto simp: dash_range_def parse_part_def int_literal_def split: list.splits sum.splits)
qed

lemma is_token_cases:
  assumes "is_token t"
  obtains (single) "CHR ''-'' \<notin> set t" "py_split (CHR ''-'') t = [t]" "is_INT t"
    | (range) a b where "CHR ''-'' \<in> set t" "py_split (CHR ''-'') t = [a, b]" "is_INT a" "is_INT b"
proof -
  from assms consider
    a where "py_split (CHR ''-'') t = [a]" "is_INT a"
    | a b where "py_split (CHR ''-'') t = [a, b]" "is_INT a" "is_INT b"
    by (auto simp: is_token_def split: list.splits)
  then show ?thesis
  proof cases
    case 1
    then have "CHR ''-'' \<notin> set t" and "a = t"
      by (simp_all add: py_split_single)
    with 1 show ?thesis by (auto intro: single)
  next
    case 2
    then have "CHR ''-'' \<in> set t"
      by (simp add: py_split_two)
    with 2 show ?thesis by (auto intro: range)
  qed
qed

lemma parse_part_token_ok:
  assumes "is_token t" "token_within_limits t"
  shows "parse_part t = Inr (token_pages t)"
  using assms(1)
proof (cases rule: is_token_cases)
  case single
  with assms(2) show ?thesis
    by (simp add: parse_part_def token_pages_def token_within_limits_def py_int_INT)
next
  case (range a b)
  with assms(2) show ?thesis
    by (simp add: parse_part_def token_pages_def token_within_limits_def py_int_INT py_range_def)
qed

lemma parse_part_token_limit:
  assumes "is_token t" "\<not> token_within_limits t"
  shows "parse_part t = Inl DigitLimit \<or> parse_part t = Inl OverflowError"
  using assms(1)
proof (cases rule: is_token_cases)
  case single
  with assms(2) show ?thesis
    by (simp add: parse_part_def token_within_limits_def py_int_INT)
next
  case (range a b)
  with assms(2) show ?thesis
    by (auto simp: parse_part_def token_within_limits_def py_int_INT)
qed

lemma token_pages_lower:
  assumes "v \<in> set (token_pages t)"
  shows "- 1 \<le> v"
proof (cases "py_split (CHR ''-'') t")
  case Nil
  with assms show ?thesis by (simp add: token_pages_def)
next
  case split: (Cons a rest)
  show ?thesis
  proof (cases rest)
    case Nil
    with split assms show ?thesis by (simp add: token_pages_def)
  next
    case (Cons b more)
    with split assms show ?thesis by (cases more) (auto simp: token_pages_def)
  qed
qed



lemma parse_parts_Inr:
  "parse_parts acc ts = Inr ps \<Longrightarrow>
     (\<forall>t\<in>set ts. \<exists>ns. parse_part t = Inr ns) \<and>
     ps = acc @ concat (map (\<lambda>t. projr (parse_part t)) ts)"
proof (induction ts arbitrary: acc)
  case Nil
  then show ?case by simp
next
  case (Cons t ts)
  from Cons.prems obtain ns where ns: "parse_part t = Inr ns"
    and rest: "parse_parts (acc @ ns) ts = Inr ps"
    by (auto split: sum.splits)
  from Cons.IH [OF rest] ns show ?case by simp
qed

lemma parse_parts_ok:
  "\<forall>t\<in>set ts. \<exists>ns. parse_part t = Inr ns \<Longrightarrow>
     parse_parts acc ts = Inr (acc @ concat (map (\<lambda>t. projr (parse_part t)) ts))"
  by (induction ts arbitrary: acc) (auto split: sum.splits)

lemma parse_parts_Inl:
  "parse_part t = Inl e \<Longrightarrow> t \<in> set ts \<Longrightarrow> \<exists>e'. parse_parts acc ts = Inl e'"
  by (induction ts arbitrary: acc) (auto split: sum.splits)

lemma parse_parts_first_Inl:
  "parse_parts acc ts = Inl e \<Longrightarrow>
     \<exists>before t after. ts = before @ t # after \<and>
       (\<forall>u\<in>set before. \<exists>ns. parse_part u = Inr ns) \<and> parse_part t = Inl e"
proof (induction ts arbitrary: acc)
  case Nil
  then show ?case by simp
next
  case (Cons a ts)
  show ?case
  proof (cases "parse_part a")
    case (Inl e')
    with Cons.prems have "e' = e" by simp
    with Inl have "a # ts = [] @ a # ts \<and> (\<forall>u\<in>set []. \<exists>ns. parse_part u = Inr ns) \<and>
        parse_part a = Inl e"
      by simp
    then show ?thesis by blast
  next
    case (Inr ns)
    with Cons.prems have "parse_parts (acc @ ns) ts = Inl e" by simp
    from Cons.IH [OF this] obtain before t after where
      "ts = before @ t # after" "\<forall>u\<in>set before. \<exists>ns. parse_part u = Inr ns"
      "parse_part t = Inl e"
      by blast
    with Inr have "a # ts = (a # before) @ t # after \<and>
        (\<forall>u\<in>set (a # before). \<exists>ns. parse_part u = Inr ns) \<and> parse_part t = Inl e"
      by simp
    then show ?thesis by blast
  qed
qed

lemma parse_parts_Inl_part:
  "parse_parts acc ts = Inl e \<Longrightarrow> \<exists>t\<in>set ts. parse_part t = Inl e"
  by (induction ts arbitrary: acc) (auto split: sum.splits)

lemma parse_parts_no_IndexError: "parse_parts acc ts = Inl e \<Longrightarrow> e \<noteq> IndexError"
  by (induction ts arbitrary: acc) (auto simp: parse_part_no_IndexError split: sum.splits)

lemma parse_parts_skip:
  "parse_part part = Inr [] \<Longrightarrow>
     parse_parts acc (before @ part # after) = parse_parts acc (before @ after)"
  by (induction before arbitrary: acc) (auto split: sum.splits)


lemma parse_page_range_ascending:
  "parse_page_range s n = Inr ps \<Longrightarrow> sorted_wrt (<) ps"
  by (auto simp: parse_page_range_def py_range_ascending sorted_set_ascending
      split: if_splits sum.splits)

lemma parse_page_range_same_parts:
  assumes res: "parse_page_range s n = Inr ps"
    and parts: "set (py_split (CHR '','') s') = set (py_split (CHR '','') s)"
    and s: "py_lower s \<noteq> ''all''" and s': "py_lower s' \<noteq> ''all''"
  shows "parse_page_range s' n = Inr ps"
proof -
  let ?ts = "py_split (CHR '','') s" and ?ts' = "py_split (CHR '','') s'"
  let ?c = "\<lambda>t. projr (parse_part t)"
  from res s obtain acc where acc: "parse_parts [] ?ts = Inr acc" and ps: "ps = sorted_set acc"
    by (auto simp: parse_page_range_def split: sum.splits)
  from parse_parts_Inr [OF acc]
  have ok: "\<forall>t\<in>set ?ts. \<exists>ns. parse_part t = Inr ns" and acc_eq: "acc = concat (map ?c ?ts)"
    by simp_all
  from ok parts have "\<forall>t\<in>set ?ts'. \<exists>ns. parse_part t = Inr ns" by simp
  then have acc': "parse_parts [] ?ts' = Inr (concat (map ?c ?ts'))"
    using parse_parts_ok [of ?ts' "[]"] by simp
  have "set (concat (map ?c ?ts')) = set acc"
    using parts by (simp add: acc_eq)
  then have "sorted_set (concat (map ?c ?ts')) = ps"
    unfolding ps by (rule sorted_set_cong)
  with acc' s' show ?thesis by (simp add: parse_page_range_def)
qed

lemma parse_page_range_permuted:
  assumes res: "parse_page_range s n = Inr ps"
    and parts: "mset (py_split (CHR '','') s') = mset (py_split (CHR '','') s)"
  shows "parse_page_range s' n = Inr ps"
proof -
  have single: "a = b" if "py_lower a = ''all''"
    and "mset (py_split (CHR '','') b) = mset (py_split (CHR '','') a)" for a b
  proof -
    from that have "mset (py_split (CHR '','') b) = {#a#}" by (simp add: all_single_part)
    then have "py_split (CHR '','') b = [a]" by (metis mset_single_iff_right)
    then show ?thesis by (rule split_single_same [symmetric])
  qed
  show ?thesis
  proof (cases "py_lower s = ''all'' \<or> py_lower s' = ''all''")
    case True
    then have "s' = s" using single [of s s'] single [of s' s] parts by auto
    with res show ?thesis by simp
  next
    case False
    moreover from parts have "set (py_split (CHR '','') s') = set (py_split (CHR '','') s)"
      by (rule mset_eq_setD)
    ultimately show ?thesis using res by (auto intro: parse_page_range_same_parts)
  qed
qed

lemma all_keyword_grammar: "py_lower s = ''all'' \<Longrightarrow> grammar_selector s \<Longrightarrow> s = ''all''"
  by (drule all_keyword_spellings)
    (auto simp: grammar_selector_def is_token_def is_INT_def is_digit_def)

lemma grammar_tokens:
  assumes "grammar_selector s" "py_lower s \<noteq> ''all''"
  shows "\<forall>t\<in>set (py_split (CHR '','') s). is_token t"
  using assms by (auto simp: grammar_selector_def list_all_iff lower_defs)

lemma grammar_selector_resolves:
  assumes "grammar_selector s" "py_lower s \<noteq> ''all''" "selector_within_limits s"
  shows "parse_page_range s n =
    Inr (sorted_set (concat (map token_pages (py_split (CHR '','') s))))"
proof -
  let ?ts = "py_split (CHR '','') s"
  from grammar_tokens [OF assms(1,2)] assms(3)
  have each: "\<forall>t\<in>set ?ts. parse_part t = Inr (token_pages t)"
    by (auto simp: selector_within_limits_def list_all_iff intro: parse_part_token_ok)
  then have "\<forall>t\<in>set ?ts. \<exists>ns. parse_part t = Inr ns"
    by blast
  from parse_parts_ok [OF this, of "[]"]
  have "parse_parts [] ?ts = Inr (concat (map (\<lambda>t. projr (parse_part t)) ?ts))"
    by simp
  moreover from each have "map (\<lambda>t. projr (parse_part t)) ?ts = map token_pages ?ts"
    by simp
  ultimately show ?thesis
    using assms(2) by (simp add: parse_page_range_def)
qed

lemma grammar_selector_limit:
  assumes "grammar_selector s" "py_lower s \<noteq> ''all''" "\<not> selector_within_limits s"
  shows "parse_page_range s n = Inl DigitLimit \<or> parse_page_range s n = Inl OverflowError"
proof -
  let ?ts = "py_split (CHR '','') s"
  note toks = grammar_tokens [OF assms(1,2)]
  from assms(3) obtain t where t: "t \<in> set ?ts" "\<not> token_within_limits t"
    by (auto simp: selector_within_limits_def list_all_iff)
  with toks have "parse_part t = Inl DigitLimit \<or> parse_part t = Inl OverflowError"
    using parse_part_token_limit by blast
  then obtain e0 where "parse_part t = Inl e0" by blast
  from parse_parts_Inl [OF this t(1)] obtain e where e: "parse_parts [] ?ts = Inl e" ..
  from parse_parts_Inl_part [OF e] obtain t' where
    t': "t' \<in> set ?ts" "parse_part t' = Inl e" ..
  from toks t'(1) have tok: "is_token t'" ..
  have "e = DigitLimit \<or> e = OverflowError"
  proof (cases "token_within_limits t'")
    case True
    from parse_part_token_ok [OF tok this] t'(2) show ?thesis by simp
  next
    case False
    from parse_part_token_limit [OF tok this] t'(2) show ?thesis by auto
  qed
  with e assms(2) show ?thesis
    by (auto simp: parse_page_range_def)
qed

lemma grammar_1_100: "grammar_selector ''1-100''"
  by (simp add: grammar_selector_def is_token_def is_INT_def is_digit_def)

lemma example_1_100: "parse_page_range ''1-100'' n = Inr [0..99]"
proof -
  have "parse_parts [] (py_split (CHR '','') ''1-100'') = Inr (py_range 0 100)"
    by (simp add: parse_part_def py_int_def nat_literal_def unsigned_def negative_def
        literal_char_def max_str_digits_def sys_maxsize_def int_strip_def
        int_space_def is_digit_def digit_val_def)
  moreover have "sorted_set (py_range 0 100) = py_range 0 100"
    by (rule sorted_set_id) (rule py_range_ascending)
  moreover have "py_lower ''1-100'' \<noteq> ''all''"
    by (simp add: py_lower_def)
  ultimately show ?thesis
    by (simp add: parse_page_range_def py_range_def)
qed



section \<open>Properties of the aggregator\<close>

lemmas aggregator_defs =
  extract_text_def extract_text_traced_def page_numbers_of_def build_result_def
  make_record_def py_getitem_def failure_of_def

lemma make_record_count: "char_count (make_record i t) = length (page_text (make_record i t))"
  by (simp add: make_record_def split: option.splits)

lemma page_make_record: "page (make_record i t) = i + 1"
  by (simp add: make_record_def)

lemma extract_pages_reads:
  "i \<in> set (fst (extract_pages pgs nums)) \<Longrightarrow> 0 \<le> i \<and> i < int (length pgs)"
  by (induction nums arbitrary: i)
    (auto simp: py_getitem_in_bounds split: if_splits pdf_page.splits prod.splits sum.splits)

lemma extract_pages_no_IndexError:
  "snd (extract_pages pgs nums) \<noteq> Inl IndexError"
  by (induction nums)
    (auto simp: py_getitem_in_bounds split: if_splits pdf_page.splits prod.splits sum.splits)

lemma extract_pages_Inr:
  "extract_pages pgs nums = (reads, Inr recs) \<Longrightarrow>
     reads = [i\<leftarrow>nums. 0 \<le> i \<and> i < int (length pgs)] \<and>
     (\<forall>i\<in>set reads. \<exists>t. pgs ! nat i = Returns t) \<and>
     recs = map (\<lambda>i. make_record i (case pgs ! nat i of Returns t \<Rightarrow> t | Raises m \<Rightarrow> None)) reads"
proof (induction nums arbitrary: reads recs)
  case Nil
  then show ?case by simp
next
  case (Cons i nums)
  show ?case
  proof (cases "0 \<le> i \<and> i < int (length pgs)")
    case False
    with Cons show ?thesis by simp
  next
    case True
    with Cons.prems obtain t reads' recs' where
      t: "pgs ! nat i = Returns t" and
      rest: "extract_pages pgs nums = (reads', Inr recs')" and
      eqs: "reads = i # reads'" "recs = make_record i t # recs'"
      by (auto simp: py_getitem_in_bounds split: pdf_page.splits prod.splits sum.splits)
    from Cons.IH [OF rest] True t eqs show ?thesis by simp
  qed
qed

lemma build_result_fields:
  "pages (build_result str fp doc md recs) = recs"
  "full_text (build_result str fp doc md recs) = py_join [CHR 0x0A] (map page_text recs)"
  "total_chars (build_result str fp doc md recs) =
     length (py_join [CHR 0x0A] (map page_text recs))"
  "extracted_pages (build_result str fp doc md recs) = length recs"
  "total_pages (build_result str fp doc md recs) = length (pdf_pages doc)"
  "metadata (build_result str fp doc md recs) =
     (if md \<and> \<not> Mapping.is_empty (pdf_metadata doc)
      then Some (Mapping.map_values (\<lambda>k v. str v) (pdf_metadata doc)) else None)"
  by (simp_all add: build_result_def Let_def)

lemma is_empty_keys: "Mapping.is_empty m \<longleftrightarrow> Mapping.keys m = {}"
  by (simp add: Mapping.is_empty_def)

lemma failure_of_not_Success: "failure_of fp e \<noteq> Success r"
  by (simp add: failure_of_def split: py_error.splits collaborator_exception.splits)

lemma failure_of_StrOf: "failure_of fp e = Failure (StrOf e') \<Longrightarrow> e = e'"
  by (simp add: failure_of_def split: py_error.splits collaborator_exception.splits)

lemma parse_page_range_Inl:
  assumes "parse_page_range s n = Inl e"
  shows "e = UnpackError \<or> e = DigitLimit \<or> e = OverflowError \<or>
    (\<exists>t\<in>set (py_split (CHR '','') s). \<exists>p\<in>set (py_split (CHR ''-'') t).
        e = InvalidLiteral p \<and> int_literal p = None)"
proof -
  from assms have "parse_parts [] (py_split (CHR '','') s) = Inl e"
    by (auto simp: parse_page_range_def split: if_splits sum.splits)
  from parse_parts_Inl_part [OF this] obtain t where
    "t \<in> set (py_split (CHR '','') s)" "parse_part t = Inl e" ..
  with parse_part_Inl [of t e] show ?thesis by blast
qed

lemma failure_of_parse:
  assumes "parse_page_range s n = Inl e"
  shows "failure_of fp e = Failure (StrOf e)"
  using parse_page_range_Inl [OF assms] by (auto simp: failure_of_def)

lemma extract_text_Success:
  assumes "extract_text str fp opened pa md = Success r"
  obtains doc nums reads recs where
    "opened = Opened doc"
    "page_numbers_of pa (length (pdf_pages doc)) = Inr nums"
    "extract_pages (pdf_pages doc) nums = (reads, Inr recs)"
    "r = build_result str fp doc md recs"
  using assms
  by (auto simp: extract_text_def extract_text_traced_def failure_of_not_Success
      split: open_outcome.splits sum.splits prod.splits)

lemma extract_text_StrArg_Success:
  assumes "extract_text str fp (Opened doc) (StrArg s) md = Success r"
  obtains ps reads recs where
    "parse_page_range s (int (length (pdf_pages doc))) = Inr ps"
    "extract_pages (pdf_pages doc) ps = (reads, Inr recs)"
    "r = build_result str fp doc md recs"
  using assms
  by (auto simp: extract_text_def extract_text_traced_def page_numbers_of_def
      failure_of_not_Success split: sum.splits prod.splits)

section \<open>The claims\<close>

subsection \<open>The resolver\<close>

text \<open>
  C1, as stated, fails: the resolver does not drop what lies outside
  \<open>[0, total_pages)\<close>. Both selectors below belong to the grammar;
  \<^verbatim>\<open>parse_page_range("1-100", 5)\<close> is \<open>[0, ..., 99]\<close>, not \<open>[0, 1, 2, 3, 4]\<close>, and
  \<^verbatim>\<open>parse_page_range("0", 5)\<close> is \<open>[-1]\<close>.
\<close>

theorem resolver_bounds_counterexample:
  "grammar_selector ''1-100'' \<and> parse_page_range ''1-100'' 5 = Inr [0..99] \<and>
   parse_page_range ''1-100'' 5 \<noteq> Inr [0, 1, 2, 3, 4] \<and>
   grammar_selector ''0'' \<and> parse_page_range ''0'' 5 = Inr [- 1]"
proof -
  have "length [0..99::int] \<noteq> length [0, 1, 2, 3, 4::int]"
    by simp
  then have "[0..99::int] \<noteq> [0, 1, 2, 3, 4]"
    by metis
  moreover have "grammar_selector ''0'' \<and> parse_page_range ''0'' 5 = Inr [- 1]"
    by (simp add: grammar_selector_def is_token_def is_INT_def resolver_defs)
  ultimately show ?thesis
    by (simp add: example_1_100 grammar_1_100)
qed

text \<open>
  C1, amended. For every selector of the grammar, the resolver returns exactly
  what the tokens denote, with nothing dropped: for \<^verbatim>\<open>all\<close> the sequence
  \<open>0, ..., total_pages - 1\<close>; for any other selector within the limits of the
  interpreter, and whatever the page count, the strictly ascending sequence
  without duplicates whose values are the pages of all its tokens, so values
  from \<open>-1\<close> upwards without upper bound. A selector of the grammar with a
  literal beyond the digit limit or a range longer than \<^verbatim>\<open>sys.maxsize\<close> raises
  the \<^verbatim>\<open>ValueError\<close> of the limit or \<^verbatim>\<open>OverflowError\<close>. Values outside
  \<open>[0, total_pages)\<close> are dropped afterwards, by the guard of the loop in
  \<^verbatim>\<open>extract_text\<close>: of the sequence, only indices inside the document are used.
\<close>

theorem resolver_ascending_unbounded:
  "grammar_selector s \<Longrightarrow>
     (s = ''all'' \<longrightarrow> parse_page_range s n = Inr [0..n - 1]) \<and>
     (s \<noteq> ''all'' \<and> selector_within_limits s \<longrightarrow>
        (\<exists>ps. (\<forall>m. parse_page_range s m = Inr ps) \<and> sorted_wrt (<) ps \<and> distinct ps \<and>
              set ps = (\<Union>t\<in>set (py_split (CHR '','') s). set (token_pages t)) \<and>
              (\<forall>v\<in>set ps. - 1 \<le> v))) \<and>
     (s \<noteq> ''all'' \<and> \<not> selector_within_limits s \<longrightarrow>
        (\<forall>m. parse_page_range s m = Inl DigitLimit) \<or>
        (\<forall>m. parse_page_range s m = Inl OverflowError)) \<and>
     (\<forall>ps pgs. parse_page_range s n = Inr ps \<longrightarrow>
        (\<forall>i\<in>set (fst (extract_pages pgs ps)). 0 \<le> i \<and> i < int (length pgs)))"
proof -
  assume g: "grammar_selector s"
  let ?ts = "py_split (CHR '','') s"
  have whole: "parse_page_range s n = Inr [0..n - 1]" if "s = ''all''"
    using that by (simp add: parse_page_range_def py_range_def lower_defs)
  have other: "py_lower s \<noteq> ''all''" if "s \<noteq> ''all''"
    using g that all_keyword_grammar by blast
  have exact: "\<exists>ps. (\<forall>m. parse_page_range s m = Inr ps) \<and> sorted_wrt (<) ps \<and> distinct ps \<and>
      set ps = (\<Union>t\<in>set ?ts. set (token_pages t)) \<and> (\<forall>v\<in>set ps. - 1 \<le> v)"
    if "s \<noteq> ''all''" and lim: "selector_within_limits s"
  proof -
    let ?ps = "sorted_set (concat (map token_pages ?ts))"
    have res: "parse_page_range s m = Inr ?ps" for m
      using g other [OF that(1)] lim by (rule grammar_selector_resolves)
    have asc: "sorted_wrt (<) ?ps"
      by (rule sorted_set_ascending)
    then have dist: "distinct ?ps"
      by (simp add: strict_sorted_iff)
    have pages: "set ?ps = (\<Union>t\<in>set ?ts. set (token_pages t))"
      by (simp add: sorted_set_set)
    then have "\<forall>v\<in>set ?ps. - 1 \<le> v"
      using token_pages_lower by blast
    with res asc dist pages show ?thesis by blast
  qed
  have limit: "(\<forall>m. parse_page_range s m = Inl DigitLimit) \<or>
      (\<forall>m. parse_page_range s m = Inl OverflowError)"
    if "s \<noteq> ''all''" and lim: "\<not> selector_within_limits s"
  proof -
    from other [OF that(1)] have same: "parse_page_range s m = parse_page_range s n" for m
      by (simp add: parse_page_range_def)
    from grammar_selector_limit [OF g other [OF that(1)] lim, of n] same
    show ?thesis by auto
  qed
  have guard: "\<forall>i\<in>set (fst (extract_pages pgs ps)). 0 \<le> i \<and> i < int (length pgs)" for pgs ps
    using extract_pages_reads by blast
  from whole exact limit guard show ?thesis by blast
qed

theorem resolver_ascending_unbounded_witness:
  "grammar_selector ''1-100'' \<and> ''1-100'' \<noteq> ''all'' \<and> selector_within_limits ''1-100'' \<and>
   parse_page_range ''1-100'' 5 = Inr [0..99] \<and> token_pages ''1-100'' = [0..99] \<and>
   sorted_wrt (<) [0..99::int] \<and> distinct [0..99::int] \<and>
   parse_page_range ''1-100'' 3 = Inr [0..99] \<and>
   fst (extract_pages (pdf_pages example_pdf) [0..99]) = [0, 1, 2] \<and>
   (2::int) < int (length (pdf_pages example_pdf)) \<and>
   grammar_selector ''1-9223372036854775808'' \<and>
   \<not> selector_within_limits ''1-9223372036854775808'' \<and>
   parse_page_range ''1-9223372036854775808'' 5 = Inl OverflowError \<and>
   grammar_selector ''all'' \<and> parse_page_range ''all'' 5 = Inr [0, 1, 2, 3, 4]"
proof -
  note grammar_defs = grammar_selector_def is_token_def is_INT_def is_digit_def
  note limit_defs = selector_within_limits_def token_within_limits_def token_pages_def
    dec_value_def digit_val_def max_str_digits_def sys_maxsize_def
  have g: "grammar_selector ''1-100''" "grammar_selector ''1-9223372036854775808''"
      "grammar_selector ''all''"
    by (simp_all add: grammar_defs)
  have lim: "selector_within_limits ''1-100''" "\<not> selector_within_limits ''1-9223372036854775808''"
    by (simp_all add: limit_defs)
  have denote: "token_pages ''1-100'' = [0..99]"
    by (simp add: limit_defs)
  have run: "parse_page_range ''1-100'' 5 = Inr [0..99]"
    by (rule example_1_100)
  have over: "parse_page_range ''1-9223372036854775808'' 5 = Inl OverflowError"
    by (simp add: resolver_defs)
  have reads: "fst (extract_pages (pdf_pages example_pdf) [0..99]) = [0, 1, 2]"
    by (simp add: example_pdf_def py_getitem_def upto.simps)
  have five: "[0..5 - 1] = [0, 1, 2, 3, 4::int]"
    by (simp add: upto.simps)
  from resolver_ascending_unbounded [OF g(1), of 5] lim(1) run
  have "sorted_wrt (<) [0..99::int] \<and> distinct [0..99::int] \<and>
      parse_page_range ''1-100'' 3 = Inr [0..99] \<and>
      (\<forall>i\<in>set (fst (extract_pages (pdf_pages example_pdf) [0..99])).
          i < int (length (pdf_pages example_pdf)))"
    by auto
  moreover from resolver_ascending_unbounded [OF g(3), of 5] five
  have "parse_page_range ''all'' 5 = Inr [0, 1, 2, 3, 4]"
    by simp
  moreover note resolver_ascending_unbounded [OF g(2), of 5]
  ultimately show ?thesis
    using g lim denote run over reads by simp
qed

text \<open>
  C7. A selector that equals \<^verbatim>\<open>all\<close> up to letter case resolves, for every page
  count \<open>n \<ge> 0\<close>, to exactly the sequence \<open>0, 1, ..., n - 1\<close>, which is empty for
  \<open>n = 0\<close>.
\<close>

theorem all_keyword_every_page:
  "py_lower s = ''all'' \<Longrightarrow> 0 \<le> n \<Longrightarrow>
     parse_page_range s n = Inr (map int [0..<nat n]) \<and> parse_page_range s 0 = Inr []"
  by (simp add: parse_page_range_def upto_as_upt)

theorem all_keyword_every_page_witness:
  "py_lower ''ALL'' = ''all'' \<and> (0::int) \<le> 3 \<and>
   parse_page_range ''ALL'' 3 = Inr [0, 1, 2] \<and> parse_page_range ''ALL'' 0 = Inr []"
proof -
  have low: "py_lower ''ALL'' = ''all''"
    by (simp add: lower_defs)
  have pos: "(0::int) \<le> 3" by simp
  have "[0..<nat 3] = [0, 1, 2]" by (simp add: upt_rec)
  with all_keyword_every_page [OF low pos] low show ?thesis by simp
qed

text \<open>
  C4. Whatever the order of the parts and however they overlap, the sequence
  returned is strictly ascending and free of duplicates, and a selector with the
  same parts in another order returns the same sequence;
  \<^verbatim>\<open>parse_page_range("5,1-3,2", 10) == [0, 1, 2, 4]\<close>.
\<close>

theorem resolver_order_independent:
  "(parse_page_range s n = Inr ps \<longrightarrow>
      sorted_wrt (<) ps \<and> distinct ps \<and>
      (\<forall>s'. mset (py_split (CHR '','') s') = mset (py_split (CHR '','') s) \<longrightarrow>
            parse_page_range s' n = Inr ps)) \<and>
   parse_page_range ''5,1-3,2'' 10 = Inr [0, 1, 2, 4]"
proof -
  have "parse_page_range ''5,1-3,2'' 10 = Inr [0, 1, 2, 4]"
    by (simp add: resolver_defs upto.simps)
  moreover have "sorted_wrt (<) ps \<and> distinct ps" if "parse_page_range s n = Inr ps"
    using parse_page_range_ascending [OF that] by (simp add: strict_sorted_iff)
  ultimately show ?thesis
    by (auto intro: parse_page_range_permuted)
qed

theorem resolver_order_independent_witness:
  "parse_page_range ''2,5,1-3,1-2'' 10 = Inr [0, 1, 2, 4] \<and>
   mset (py_split (CHR '','') ''1-2,1-3,5,2'') = mset (py_split (CHR '','') ''2,5,1-3,1-2'') \<and>
   parse_page_range ''1-2,1-3,5,2'' 10 = Inr [0, 1, 2, 4]"
proof -
  have res: "parse_page_range ''2,5,1-3,1-2'' 10 = Inr [0, 1, 2, 4]"
    by (simp add: resolver_defs upto.simps)
  have perm: "mset (py_split (CHR '','') ''1-2,1-3,5,2'') = mset (py_split (CHR '','') ''2,5,1-3,1-2'')"
    by simp
  from resolver_order_independent [of "''2,5,1-3,1-2''" 10 "[0, 1, 2, 4]"] res perm
  show ?thesis by blast
qed

text \<open>
  C8. A range part whose end is smaller than its start is accepted and adds no
  page number: the part itself yields the empty list, the loop gives the same
  outcome with or without it, and \<^verbatim>\<open>parse_page_range("3-1", 10) == []\<close>.
\<close>

theorem reversed_range_contributes_nothing:
  "(py_split (CHR ''-'') part = [a, b] \<and> py_int a = Inr x \<and> py_int b = Inr y \<and> y < x \<longrightarrow>
      parse_part part = Inr [] \<and>
      (\<forall>acc before after.
         parse_parts acc (before @ part # after) = parse_parts acc (before @ after))) \<and>
   parse_page_range ''3-1'' 10 = Inr []"
proof -
  have ex: "parse_page_range ''3-1'' 10 = Inr []"
    by (simp add: resolver_defs)
  have "parse_part part = Inr []"
    if sp: "py_split (CHR ''-'') part = [a, b]" and "py_int a = Inr x" "py_int b = Inr y" "y < x"
  proof -
    have "CHR ''-'' \<in> set part"
    proof (rule ccontr)
      assume "CHR ''-'' \<notin> set part"
      then have "py_split (CHR ''-'') part = [part]" by (rule py_split_no_sep)
      with sp show False by simp
    qed
    with that show ?thesis by (simp add: parse_part_def py_range_def sys_maxsize_def)
  qed
  with ex show ?thesis by (auto simp: parse_parts_skip)
qed

theorem reversed_range_contributes_nothing_witness:
  "py_split (CHR ''-'') ''3-1'' = [''3'', ''1''] \<and> py_int ''3'' = Inr 3 \<and> py_int ''1'' = Inr 1 \<and>
   (1::int) < 3 \<and> parse_part ''3-1'' = Inr [] \<and>
   parse_parts [] ([''5''] @ ''3-1'' # [''2'']) = parse_parts [] ([''5''] @ [''2''])"
proof -
  have h: "py_split (CHR ''-'') ''3-1'' = [''3'', ''1''] \<and> py_int ''3'' = Inr 3 \<and>
      py_int ''1'' = Inr 1 \<and> (1::int) < 3"
    by (simp add: resolver_defs)
  from reversed_range_contributes_nothing [of "''3-1''" "''3''" "''1''" 3 1] h
  show ?thesis by blast
qed

text \<open>
  C5, as stated, fails. There is no error type of the resolver's own: a part
  that cannot be read raises \<^verbatim>\<open>ValueError\<close>, and what the exception carries is
  not always the part. A part with two dashes raises the unpacking error, which
  names no part; a range with one bad side carries that side only. Read against
  the grammar, the claim fails outright: \<^verbatim>\<open>+1\<close> is no token of the grammar and is
  accepted.
\<close>

theorem invalid_part_counterexample:
  "parse_page_range ''1-2-3'' 5 = Inl UnpackError \<and>
   parse_page_range ''1-x'' 5 = Inl (InvalidLiteral ''x'') \<and>
   \<not> is_token ''+1'' \<and> parse_page_range ''+1'' 5 = Inr [0]"
  by (simp add: resolver_defs is_token_def is_INT_def)

text \<open>
  C5, amended. For every selector with a part that is not the keyword, not an
  integer that \<^verbatim>\<open>int\<close> accepts, and not two such integers around one dash, the
  resolver raises, for every page count, the exception of the first part that
  raises. That is a \<^verbatim>\<open>ValueError\<close> (the unpacking error, the digit limit, or an
  invalid literal carrying the dash-separated piece that \<^verbatim>\<open>int\<close> rejects) or,
  from a range longer than \<^verbatim>\<open>sys.maxsize\<close>, \<^verbatim>\<open>OverflowError\<close>.
  \<^verbatim>\<open>extract_text\<close> returns the failure dictionary with \<^verbatim>\<open>str(e)\<close>, without page
  data and without having read a page.
\<close>

theorem invalid_part_fails:
  "t \<in> set (py_split (CHR '','') s) \<Longrightarrow> \<not> all_keyword t \<Longrightarrow> \<not> bare_integer t \<Longrightarrow>
   \<not> dash_range t \<Longrightarrow>
     \<exists>e. (\<forall>n. parse_page_range s n = Inl e) \<and>
         (\<exists>before t' after.
            py_split (CHR '','') s = before @ t' # after \<and>
            (\<forall>u\<in>set before. \<exists>ns. parse_part u = Inr ns) \<and> parse_part t' = Inl e) \<and>
         (e = UnpackError \<or> e = DigitLimit \<or> e = OverflowError \<or>
          (\<exists>t'\<in>set (py_split (CHR '','') s). \<exists>p\<in>set (py_split (CHR ''-'') t').
              e = InvalidLiteral p \<and> int_literal p = None)) \<and>
         extract_text_traced str fp (Opened doc) (StrArg s) md = ([], Failure (StrOf e))"
proof -
  let ?ts = "py_split (CHR '','') s"
  assume t: "t \<in> set ?ts" and not_all: "\<not> all_keyword t"
    and bad: "\<not> bare_integer t" "\<not> dash_range t"
  have whole: "py_lower s \<noteq> ''all''"
  proof
    assume all: "py_lower s = ''all''"
    then have "?ts = [s]" by (rule all_single_part)
    with t all not_all show False by (simp add: all_keyword_def)
  qed
  from parse_part_rejects [OF bad] obtain e0 where "parse_part t = Inl e0" ..
  from parse_parts_Inl [OF this t] obtain e where e: "parse_parts [] ?ts = Inl e" ..
  from whole e have res: "parse_page_range s n = Inl e" for n
    by (simp add: parse_page_range_def)
  from parse_parts_first_Inl [OF e] have first:
    "\<exists>before t' after. ?ts = before @ t' # after \<and>
        (\<forall>u\<in>set before. \<exists>ns. parse_part u = Inr ns) \<and> parse_part t' = Inl e" .
  have kind: "e = UnpackError \<or> e = DigitLimit \<or> e = OverflowError \<or>
      (\<exists>t'\<in>set ?ts. \<exists>p\<in>set (py_split (CHR ''-'') t'). e = InvalidLiteral p \<and> int_literal p = None)"
    using res by (rule parse_page_range_Inl)
  have "extract_text_traced str fp (Opened doc) (StrArg s) md = ([], Failure (StrOf e))"
    using res [of "int (length (pdf_pages doc))"]
    by (simp add: extract_text_traced_def page_numbers_of_def failure_of_parse)
  with res first kind show ?thesis by blast
qed

theorem invalid_part_fails_witness:
  "''x-2'' \<in> set (py_split (CHR '','') ''1,x-2,3'') \<and> \<not> all_keyword ''x-2'' \<and>
   \<not> bare_integer ''x-2'' \<and> \<not> dash_range ''x-2'' \<and>
   parse_page_range ''1,x-2,3'' 3 = Inl (InvalidLiteral ''x'') \<and>
   extract_text_traced id ''f.pdf'' (Opened example_pdf) (StrArg ''1,x-2,3'') True =
     ([], Failure (StrOf (InvalidLiteral ''x''))) \<and>
   ''x'' \<in> set (py_split (CHR '','') ''1-9223372036854775808,x'') \<and> \<not> all_keyword ''x'' \<and>
   \<not> bare_integer ''x'' \<and> \<not> dash_range ''x'' \<and>
   parse_page_range ''1-9223372036854775808,x'' 3 = Inl OverflowError \<and>
   extract_text_traced id ''f.pdf'' (Opened example_pdf)
     (StrArg ''1-9223372036854775808,x'') True = ([], Failure (StrOf OverflowError))"
proof -
  note part_defs = all_keyword_def bare_integer_def dash_range_def
  have hyps: "''x-2'' \<in> set (py_split (CHR '','') ''1,x-2,3'')" "\<not> all_keyword ''x-2''"
     "\<not> bare_integer ''x-2''" "\<not> dash_range ''x-2''"
    by (simp_all add: part_defs resolver_defs)
  have hyps': "''x'' \<in> set (py_split (CHR '','') ''1-9223372036854775808,x'')"
     "\<not> all_keyword ''x''" "\<not> bare_integer ''x''" "\<not> dash_range ''x''"
    by (simp_all add: part_defs resolver_defs)
  have res: "parse_page_range ''1,x-2,3'' 3 = Inl (InvalidLiteral ''x'')"
    by (simp add: resolver_defs)
  have res': "parse_page_range ''1-9223372036854775808,x'' 3 = Inl OverflowError"
    by (simp add: resolver_defs)
  from invalid_part_fails [OF hyps, of id "''f.pdf''" example_pdf True]
    invalid_part_fails [OF hyps', of id "''f.pdf''" example_pdf True]
    res res' hyps hyps'
  show ?thesis by auto
qed




subsection \<open>The aggregator\<close>

text \<open>
  C2, as stated, fails: \<^verbatim>\<open>total_chars\<close> is \<^verbatim>\<open>len(full_text)\<close>, which counts the
  newlines between the pages, whereas the \<^verbatim>\<open>char_count\<close> fields do not. On the
  three-page example the result has \<^verbatim>\<open>total_chars\<close> 5 and the \<^verbatim>\<open>char_count\<close>
  fields sum to 3.
\<close>

theorem total_chars_counterexample:
  "extract_text id ''f.pdf'' (Opened example_pdf) (StrArg ''all'') False = Success example_result \<and>
   total_chars example_result = 5 \<and>
   sum_list (map char_count (pages example_result)) = 3 \<and>
   length (full_text example_result) = 5"
  by (simp add: example_pdf_def example_result_def aggregator_defs resolver_defs upto.simps)

text \<open>
  C2, amended. For every successful extraction, \<^verbatim>\<open>total_chars\<close> is the length of
  \<^verbatim>\<open>full_text\<close>, \<^verbatim>\<open>full_text\<close> is the texts of the page records joined by single
  newlines, every \<^verbatim>\<open>char_count\<close> is the length of its record's text, and so
  \<^verbatim>\<open>total_chars\<close> is the sum of the \<^verbatim>\<open>char_count\<close> fields plus one for each
  newline between two records.
\<close>

theorem total_chars_is_length:
  "extract_text str fp opened pa md = Success r \<Longrightarrow>
     total_chars r = length (full_text r) \<and>
     full_text r = py_join [CHR 0x0A] (map page_text (pages r)) \<and>
     (\<forall>rc\<in>set (pages r). char_count rc = length (page_text rc)) \<and>
     total_chars r = sum_list (map char_count (pages r)) + (length (pages r) - 1)"
proof -
  assume "extract_text str fp opened pa md = Success r"
  then obtain doc nums reads recs where
    loop: "extract_pages (pdf_pages doc) nums = (reads, Inr recs)" and
    r: "r = build_result str fp doc md recs"
    by (rule extract_text_Success)
  from extract_pages_Inr [OF loop]
  have counts: "\<forall>rc\<in>set recs. char_count rc = length (page_text rc)"
    by (auto simp: make_record_count)
  then have "sum_list (map char_count recs) = sum_list (map length (map page_text recs))"
    by (induction recs) simp_all
  then have "sum_list (map char_count recs) + (length recs - 1) =
      length (py_join [CHR 0x0A] (map page_text recs))"
    by (simp only: length_py_join length_map)
  with counts r show ?thesis
    by (simp add: build_result_fields)
qed

theorem total_chars_is_length_witness:
  "extract_text id ''f.pdf'' (Opened example_pdf) (StrArg ''all'') False = Success example_result \<and>
   total_chars example_result = length (full_text example_result) \<and>
   total_chars example_result =
     sum_list (map char_count (pages example_result)) + (length (pages example_result) - 1)"
proof -
  have run: "extract_text id ''f.pdf'' (Opened example_pdf) (StrArg ''all'') False = Success example_result"
    by (simp add: example_pdf_def example_result_def aggregator_defs resolver_defs upto.simps)
  from total_chars_is_length [OF run] run show ?thesis by blast
qed

text \<open>
  C3. For every successful extraction with a string selector, \<^verbatim>\<open>full_text\<close> is the
  texts of the page records joined by newlines, and the records follow the
  resolved indices in ascending order: their page numbers are strictly
  ascending and are the resolved indices inside the document, each plus one.
  A selector that resolves to the same set of indices, for instance one with the
  same parts in another order, gives the same result, hence the same
  \<^verbatim>\<open>full_text\<close>.
\<close>

theorem full_text_in_resolved_order:
  "extract_text str fp (Opened doc) (StrArg s) md = Success r \<Longrightarrow>
     full_text r = py_join [CHR 0x0A] (map page_text (pages r)) \<and>
     sorted_wrt (<) (map page (pages r)) \<and>
     (\<exists>ps. parse_page_range s (int (length (pdf_pages doc))) = Inr ps \<and>
        map page (pages r) =
          map (\<lambda>i. i + 1) [i\<leftarrow>ps. 0 \<le> i \<and> i < int (length (pdf_pages doc))] \<and>
        (\<forall>s' ps'. parse_page_range s' (int (length (pdf_pages doc))) = Inr ps' \<and>
             set ps' = set ps \<longrightarrow>
           extract_text str fp (Opened doc) (StrArg s') md = Success r)) \<and>
     (\<forall>s'. mset (py_split (CHR '','') s') = mset (py_split (CHR '','') s) \<longrightarrow>
           extract_text str fp (Opened doc) (StrArg s') md = Success r)"
proof -
  let ?n = "int (length (pdf_pages doc))"
  assume run: "extract_text str fp (Opened doc) (StrArg s) md = Success r"
  then obtain ps reads recs where
    ps: "parse_page_range s ?n = Inr ps" and
    loop: "extract_pages (pdf_pages doc) ps = (reads, Inr recs)" and
    r: "r = build_result str fp doc md recs"
    by (rule extract_text_StrArg_Success)
  have asc: "sorted_wrt (<) ps"
    using ps by (rule parse_page_range_ascending)
  from extract_pages_Inr [OF loop]
  have reads: "reads = [i\<leftarrow>ps. 0 \<le> i \<and> i < ?n]"
    and recs: "map page recs = map (\<lambda>i. i + 1) reads"
    by (simp_all add: page_make_record o_def)
  have joined: "full_text r = py_join [CHR 0x0A] (map page_text (pages r))"
    by (simp add: r build_result_fields)
  have "sorted_wrt (<) reads"
    unfolding reads using asc by (rule sorted_wrt_filter)
  then have "sorted_wrt (<) (map (\<lambda>i. i + 1) reads)"
    by (induction reads) auto
  then have order: "sorted_wrt (<) (map page (pages r))"
    by (simp only: r build_result_fields recs)
  have same: "extract_text str fp (Opened doc) (StrArg s') md = Success r"
    if "parse_page_range s' ?n = Inr ps" for s'
    using run that ps
    by (simp add: extract_text_def extract_text_traced_def page_numbers_of_def)
  have by_set: "extract_text str fp (Opened doc) (StrArg s') md = Success r"
    if "parse_page_range s' ?n = Inr ps'" "set ps' = set ps" for s' ps'
  proof -
    have "sorted_wrt (<) ps'"
      using that(1) by (rule parse_page_range_ascending)
    then have "ps' = ps"
      using asc that(2) by (rule strict_ascending_unique)
    with that(1) show ?thesis by (simp add: same)
  qed
  have by_perm: "extract_text str fp (Opened doc) (StrArg s') md = Success r"
    if "mset (py_split (CHR '','') s') = mset (py_split (CHR '','') s)" for s'
    using parse_page_range_permuted [OF ps that] by (rule same)
  from joined order ps reads recs by_set by_perm show ?thesis
    by (auto simp: r build_result_fields)
qed

theorem full_text_in_resolved_order_witness:
  "extract_text id ''f.pdf'' (Opened example_pdf) (StrArg ''3,1-2'') False = Success example_result \<and>
   full_text example_result = py_join [CHR 0x0A] (map page_text (pages example_result)) \<and>
   sorted_wrt (<) (map page (pages example_result)) \<and>
   mset (py_split (CHR '','') ''1-2,3'') = mset (py_split (CHR '','') ''3,1-2'') \<and>
   extract_text id ''f.pdf'' (Opened example_pdf) (StrArg ''1-2,3'') False = Success example_result"
proof -
  have run: "extract_text id ''f.pdf'' (Opened example_pdf) (StrArg ''3,1-2'') False = Success example_result"
    by (simp add: example_pdf_def example_result_def aggregator_defs resolver_defs upto.simps)
  have perm: "mset (py_split (CHR '','') ''1-2,3'') = mset (py_split (CHR '','') ''3,1-2'')"
    by simp
  from full_text_in_resolved_order [OF run] run perm show ?thesis by blast
qed

text \<open>
  C9. For every document and flag, a successful result has the key
  \<^verbatim>\<open>'metadata'\<close> if and only if \<^verbatim>\<open>include_metadata\<close> is true and the document has
  at least one metadata entry. When present it has the document's keys, each
  mapped to \<^verbatim>\<open>str\<close> of its value; it is never an empty dictionary.
\<close>

theorem metadata_iff_requested_and_present:
  "extract_text str fp (Opened doc) pa md = Success r \<Longrightarrow>
     (metadata r \<noteq> None \<longleftrightarrow> md \<and> Mapping.keys (pdf_metadata doc) \<noteq> {}) \<and>
     (\<forall>m. metadata r = Some m \<longrightarrow>
        Mapping.keys m = Mapping.keys (pdf_metadata doc) \<and>
        (\<forall>k. Mapping.lookup m k = map_option str (Mapping.lookup (pdf_metadata doc) k))) \<and>
     metadata r \<noteq> Some Mapping.empty"
proof -
  assume "extract_text str fp (Opened doc) pa md = Success r"
  then obtain recs where r: "r = build_result str fp doc md recs"
    by (auto elim: extract_text_Success)
  let ?m = "Mapping.map_values (\<lambda>k v. str v) (pdf_metadata doc)"
  have keys: "Mapping.keys ?m = Mapping.keys (pdf_metadata doc)"
    by simp
  have look: "Mapping.lookup ?m k = map_option str (Mapping.lookup (pdf_metadata doc) k)" for k
    by (simp add: lookup_map_values)
  have "?m \<noteq> Mapping.empty" if "Mapping.keys (pdf_metadata doc) \<noteq> {}"
    using that keys by (metis keys_empty)
  with keys look show ?thesis
    by (auto simp: r build_result_fields is_empty_keys)
qed

theorem metadata_iff_requested_and_present_witness:
  "extract_text id ''f.pdf'' (Opened example_pdf) (StrArg ''all'') True =
     Success (example_result\<lparr>metadata := Some (Mapping.update ''Title'' ''Report'' Mapping.empty)\<rparr>) \<and>
   Mapping.keys (pdf_metadata example_pdf) = {''Title''} \<and>
   Mapping.lookup (Mapping.update ''Title'' ''Report'' Mapping.empty) ''Title''
     = map_option id (Mapping.lookup (pdf_metadata example_pdf) ''Title'') \<and>
   extract_text id ''f.pdf'' (Opened example_pdf) (StrArg ''all'') False = Success example_result \<and>
   metadata example_result = None"
proof -
  let ?m = "Mapping.update ''Title'' ''Report'' (Mapping.empty :: (string, string) mapping)"
  have m: "Mapping.map_values (\<lambda>k v. id v) ?m = ?m"
    by (rule mapping_eqI) (simp add: lookup_map_values lookup_update')
  have on: "extract_text id ''f.pdf'' (Opened example_pdf) (StrArg ''all'') True =
      Success (example_result\<lparr>metadata := Some ?m\<rparr>)"
    by (simp add: m example_pdf_def example_result_def aggregator_defs resolver_defs upto.simps)
  have off: "extract_text id ''f.pdf'' (Opened example_pdf) (StrArg ''all'') False = Success example_result"
    by (simp add: example_pdf_def example_result_def aggregator_defs resolver_defs upto.simps)
  have keys: "Mapping.keys (pdf_metadata example_pdf) = {''Title''}"
    by (simp add: example_pdf_def)
  from metadata_iff_requested_and_present [OF on] metadata_iff_requested_and_present [OF off]
    on off keys
  show ?thesis by (simp add: example_result_def example_pdf_def)
qed

text \<open>
  C10. For every document and string selector, \<^verbatim>\<open>extract_text\<close> evaluates
  \<^verbatim>\<open>pdf.pages[i]\<close> only for \<open>0 \<le> i < total_pages\<close>: the call never ends in
  \<^verbatim>\<open>IndexError\<close>, and every page record holds the text of the page at its own
  index, never that of a page counted from the end. The resolver does produce
  indices outside that range, such as \<open>-1\<close> for the part \<^verbatim>\<open>0\<close>; the guard of the
  loop drops them.
\<close>

theorem aggregator_reads_in_bounds:
  "(\<forall>i\<in>set (fst (extract_text_traced str fp (Opened doc) (StrArg s) md)).
       0 \<le> i \<and> i < int (length (pdf_pages doc))) \<and>
   extract_text str fp (Opened doc) (StrArg s) md \<noteq> Failure (StrOf IndexError) \<and>
   (\<forall>r. extract_text str fp (Opened doc) (StrArg s) md = Success r \<longrightarrow>
      (\<forall>rc\<in>set (pages r).
         0 \<le> page rc - 1 \<and> page rc - 1 < int (length (pdf_pages doc)) \<and>
         (\<exists>t. pdf_pages doc ! nat (page rc - 1) = Returns t \<and>
              rc = make_record (page rc - 1) t))) \<and>
   parse_page_range ''0'' (int (length (pdf_pages doc))) = Inr [- 1]"
proof -
  let ?n = "int (length (pdf_pages doc))"
  let ?run = "extract_text_traced str fp (Opened doc) (StrArg s) md"
  have zero: "parse_page_range ''0'' ?n = Inr [- 1]"
    by (simp add: resolver_defs)
  have reads: "0 \<le> i \<and> i < ?n" if "i \<in> set (fst ?run)" for i
  proof (cases "parse_page_range s ?n")
    case (Inl e)
    with that show ?thesis
      by (simp add: extract_text_traced_def page_numbers_of_def)
  next
    case (Inr ps)
    with that have "i \<in> set (fst (extract_pages (pdf_pages doc) ps))"
      by (auto simp: extract_text_traced_def page_numbers_of_def split: prod.splits sum.splits)
    then show ?thesis by (rule extract_pages_reads)
  qed
  have no_index_error: "snd ?run \<noteq> Failure (StrOf IndexError)"
  proof (cases "parse_page_range s ?n")
    case (Inl e)
    then have "e \<noteq> IndexError"
      by (auto simp: parse_page_range_def dest: parse_parts_no_IndexError split: if_splits sum.splits)
    with Inl show ?thesis
      by (auto simp: extract_text_traced_def page_numbers_of_def dest: failure_of_StrOf)
  next
    case (Inr ps)
    with extract_pages_no_IndexError [of "pdf_pages doc" ps] show ?thesis
      by (auto simp: extract_text_traced_def page_numbers_of_def
          dest: failure_of_StrOf split: prod.splits sum.splits)
  qed
  have recs: "0 \<le> page rc - 1 \<and> page rc - 1 < ?n \<and>
      (\<exists>t. pdf_pages doc ! nat (page rc - 1) = Returns t \<and> rc = make_record (page rc - 1) t)"
    if run: "extract_text str fp (Opened doc) (StrArg s) md = Success r" and rc: "rc \<in> set (pages r)"
    for r rc
  proof -
    from run obtain ps reads recs where
      loop: "extract_pages (pdf_pages doc) ps = (reads, Inr recs)" and
      r: "r = build_result str fp doc md recs"
      by (rule extract_text_StrArg_Success)
    from extract_pages_Inr [OF loop] rc r obtain i where
      i: "i \<in> set reads" "0 \<le> i \<and> i < ?n" and
      rc_eq: "rc = make_record i (case pdf_pages doc ! nat i of Returns t \<Rightarrow> t | Raises m \<Rightarrow> None)"
      and ret: "\<exists>t. pdf_pages doc ! nat i = Returns t"
      by (auto simp: build_result_fields)
    from rc_eq have "page rc - 1 = i" by (simp add: page_make_record)
    with i rc_eq ret show ?thesis by auto
  qed
  from zero reads no_index_error recs show ?thesis
    by (simp add: extract_text_def)
qed

theorem aggregator_reads_in_bounds_witness:
  "parse_page_range ''0,2-9'' 3 = Inr [- 1, 1, 2, 3, 4, 5, 6, 7, 8] \<and>
   extract_text_traced id ''f.pdf'' (Opened example_pdf) (StrArg ''0,2-9'') False =
     ([1, 2],
      Success (example_result
        \<lparr>extracted_pages := 2, total_chars := 2,
         pages := [\<lparr>page = 2, page_text = [], char_count = 0\<rparr>,
                   \<lparr>page = 3, page_text = ''c'', char_count = 1\<rparr>],
         full_text := [CHR 0x0A] @ ''c''\<rparr>)) \<and>
   (0::int) \<le> 1 \<and> 2 < int (length (pdf_pages example_pdf)) \<and>
   pdf_pages example_pdf ! nat (3 - 1) = Returns (Some ''c'')"
proof -
  have sel: "parse_page_range ''0,2-9'' 3 = Inr [- 1, 1, 2, 3, 4, 5, 6, 7, 8]"
    by (simp add: resolver_defs upto.simps)
  have run: "extract_text_traced id ''f.pdf'' (Opened example_pdf) (StrArg ''0,2-9'') False =
     ([1, 2],
      Success (example_result
        \<lparr>extracted_pages := 2, total_chars := 2,
         pages := [\<lparr>page = 2, page_text = [], char_count = 0\<rparr>,
                   \<lparr>page = 3, page_text = ''c'', char_count = 1\<rparr>],
         full_text := [CHR 0x0A] @ ''c''\<rparr>))"
    by (simp add: example_pdf_def example_result_def aggregator_defs resolver_defs upto.simps)
  from aggregator_reads_in_bounds [of id "''f.pdf''" example_pdf "''0,2-9''" False] sel run
  show ?thesis by (simp add: extract_text_def example_pdf_def)
qed

end
